theory Spec2Isabelle
  imports Main "HOL-Library.Word" "HOL-Library.Sublist"
begin

section \<open>JavaScript values and the helper libraries\<close>

text \<open>
  The class \<open>Zip\<close> of \<open>lib/index.js\<close> receives untyped JavaScript values: the array of
  file descriptors given to the constructor, and the two arguments of \<open>getStream\<close>.
  The only observation the code makes of a number it receives is whether it is an
  integer, and then its value; so such a number is either an integer or some number for
  which \<open>Number.isInteger\<close> is false (a fraction, \<open>NaN\<close>, an infinity).
\<close>

type_synonym byte = "8 word"

datatype jsnum = Integer int | NonInteger

datatype jsval =
    JUndefined
  | JNull
  | JBool bool
  | JNum jsnum
  | JStr string
  | JArr "jsval list"
  | JObj "(string \<times> jsval) list"

text \<open>Property read \<open>obj.key\<close> on an object literal: an absent property is \<open>undefined\<close>.\<close>

fun get_prop :: "(string \<times> jsval) list \<Rightarrow> string \<Rightarrow> jsval" where
  "get_prop [] k = JUndefined"
| "get_prop ((k', v) # ps) k = (if k' = k then v else get_prop ps k)"

text \<open>
  The predicates of \<open>is-it-type\<close> that the module imports. \<open>isObject\<close> holds of objects
  other than \<open>null\<close> and arrays; an array among the descriptors is rejected in any case,
  by this assertion or by the next one, since it has no \<open>path\<close>.
\<close>

fun isString :: "jsval \<Rightarrow> bool" where
  "isString (JStr s) = True"
| "isString v = False"

fun isArray :: "jsval \<Rightarrow> bool" where
  "isArray (JArr vs) = True"
| "isArray v = False"

fun isObject :: "jsval \<Rightarrow> bool" where
  "isObject (JObj ps) = True"
| "isObject v = False"

fun isInteger :: "jsval \<Rightarrow> bool" where
  "isInteger (JNum (Integer i)) = True"
| "isInteger v = False"

text \<open>The integer a value stands for, once \<open>isInteger\<close> has accepted it.\<close>

fun js_int :: "jsval \<Rightarrow> int" where
  "js_int (JNum (Integer i)) = i"
| "js_int v = 0"

definition isPositiveInteger :: "jsval \<Rightarrow> bool" where
  "isPositiveInteger v = (isInteger v \<and> 0 < js_int v)"

definition isPositiveIntegerOrZero :: "jsval \<Rightarrow> bool" where
  "isPositiveIntegerOrZero v = (isInteger v \<and> 0 \<le> js_int v)"

text \<open>\<open>x == null\<close> holds of \<open>null\<close> and \<open>undefined\<close> only.\<close>

fun eq_null :: "jsval \<Rightarrow> bool" where
  "eq_null JUndefined = True"
| "eq_null JNull = True"
| "eq_null v = False"

section \<open>Sums of numbers\<close>

text \<open>
  A JavaScript number is an IEEE double: the sum of two integers is the exact sum
  rounded to the nearest double, a tie going to the double with the even mantissa, and
  a sum of magnitude \<open>2^1024\<close> or more after rounding is an infinity. Doubles have a
  mantissa of \<open>53\<close> bits, so integers up to \<open>2^53\<close> are exact. \<open>ulp x\<close> is the distance
  between the doubles around an integer \<open>x \<ge> 0\<close>: \<open>1\<close> below \<open>2^53\<close>, and doubled each
  time \<open>x\<close> doubles from there.
\<close>

datatype dbl = Fin int | PosInf | NegInf | NaN

function ulp :: "int \<Rightarrow> int" where
  "ulp x = (if x < 9007199254740992 then 1 else 2 * ulp (x div 2))"
  by pat_completeness auto
termination
  by (relation "measure nat") auto

declare ulp.simps [simp del]

definition round_nonneg :: "int \<Rightarrow> int" where
  "round_nonneg x =
     (let u = ulp x; q = x div u; r = x mod u
      in if 2 * r < u then q * u
         else if u < 2 * r then (q + 1) * u
         else if even q then q * u
         else (q + 1) * u)"

definition round_dbl :: "int \<Rightarrow> dbl" where
  "round_dbl x =
     (let y = (if 0 \<le> x then round_nonneg x else - round_nonneg (- x))
      in if 2 ^ 1024 \<le> y then PosInf
         else if y \<le> - (2 ^ 1024) then NegInf
         else Fin y)"

fun dbl_add :: "dbl \<Rightarrow> dbl \<Rightarrow> dbl" where
  "dbl_add (Fin a) (Fin b) = round_dbl (a + b)"
| "dbl_add NaN y = NaN"
| "dbl_add x NaN = NaN"
| "dbl_add PosInf NegInf = NaN"
| "dbl_add NegInf PosInf = NaN"
| "dbl_add PosInf y = PosInf"
| "dbl_add NegInf y = NegInf"
| "dbl_add x PosInf = PosInf"
| "dbl_add x NegInf = NegInf"

text \<open>The comparisons \<open>x <= y\<close> and \<open>x < y\<close>; both are false when an operand is \<open>NaN\<close>.\<close>

fun dbl_le :: "dbl \<Rightarrow> dbl \<Rightarrow> bool" where
  "dbl_le (Fin a) (Fin b) = (a \<le> b)"
| "dbl_le NaN y = False"
| "dbl_le x NaN = False"
| "dbl_le NegInf y = True"
| "dbl_le x PosInf = True"
| "dbl_le x y = False"

fun dbl_less :: "dbl \<Rightarrow> dbl \<Rightarrow> bool" where
  "dbl_less (Fin a) (Fin b) = (a < b)"
| "dbl_less NaN y = False"
| "dbl_less x NaN = False"
| "dbl_less PosInf y = False"
| "dbl_less x NegInf = False"
| "dbl_less x y = True"

section \<open>Errors\<close>

text \<open>
  \<open>assert\<close> is \<open>simple-invariant\<close>: it throws an error carrying the message when the
  condition is falsy. The other exceptions are the \<open>TypeError\<close>s of the language, an
  exception thrown inside the encoder, and a rejected \<open>stat\<close>.
\<close>

datatype error =
    Invariant string
  | TypeError string
  | EncoderError
  | StatError string

section \<open>The data of a \<open>Zip\<close> instance\<close>

text \<open>
  A stream object of the encoder is known by its identity only. A \<open>PassThrough\<close>
  created by \<open>getStream\<close> is modelled by the bytes written to it so far. The stream
  returned to the caller and the \<open>stream\<close> of the request kept in \<open>_outputs\<close> are one
  object; what is delivered to the caller later is what is written to the stream of the
  request.
\<close>

type_synonym stream = nat

datatype passthrough = PassThrough (written: "byte list")

text \<open>The conformed file object \<open>{path, filename, size, crc32Watcher, compressedSizeCounter}\<close>.\<close>

record zfile =
  path :: string
  filename :: string
  file_size :: "nat option"
  crc32Watcher :: "stream option"
  compressedSizeCounter :: "stream option"

text \<open>A captured chunk \<open>{buff, file, offset}\<close> and a range request \<open>{stream, offset, length, pos}\<close>.\<close>

record chunk =
  buff :: "byte list"
  chunk_file :: "zfile option"
  chunk_offset :: int

record zoutput =
  stream :: passthrough
  out_offset :: int
  out_length :: int
  pos :: int

section \<open>The external encoder\<close>

text \<open>
  \<open>ZipFile\<close> comes from the package \<open>yazl\<close>, which is not part of the repository. The
  class uses three things of it: \<open>addReadStream(stream, name, {compress: false, size})\<close>,
  \<open>end(callback)\<close> and the field \<open>outputStreamCursor\<close>. An encoder is therefore a
  parameter of the model. What an instance does may depend on the calls of
  \<open>addReadStream\<close> it has received so far (its history); the instance itself is modelled
  by that history.

  A call of \<open>addReadStream\<close> can call \<open>outputStream.write(buff)\<close> any number of times
  (each with the value \<open>outputStreamCursor\<close> has at that moment), can call
  \<open>readStream.pipe(s)\<close> any number of times, and can throw. A call of \<open>end\<close> can throw,
  can return without calling back, or calls back before it returns with the final size
  (an integer; yazl gives \<open>-1\<close> when it cannot predict the size). yazl computes the
  final size inside \<open>end\<close> for entries added by \<open>addReadStream\<close>, so a callback after
  \<open>end\<close> has returned is not part of the model.
\<close>

type_synonym history = "(string \<times> nat option) list"

record add_effect =
  writes :: "(byte list \<times> int) list"
  pipes :: "stream list"
  add_throws :: bool

datatype end_effect = EndThrows | EndSilent | EndCalls int

record encoder =
  addReadStream :: "history \<Rightarrow> string \<Rightarrow> nat option \<Rightarrow> add_effect"
  end_zip :: "history \<Rightarrow> end_effect"

text \<open>
  The instance. Properties whose name starts with an underscore in the source carry the
  prefix \<open>p_\<close>; \<open>zip_size\<close> is the public property \<open>size\<close>. The property \<open>files\<close>
  (without underscore) is read by \<open>init\<close>; no statement of the class assigns it, so it
  is \<open>undefined\<close> (\<open>None\<close>) in a fresh instance. \<open>p_outputs\<close> is the \<open>Set\<close> of request
  objects: every request is a new object, so the set is the list of insertions.
\<close>

record Zip =
  zip_size :: "int option"
  p_chunks :: "chunk list"
  p_zip :: history
  p_outputs :: "zoutput list"
  p_currentFileIndex :: "nat option"
  p_nextFileIndex :: nat
  p_currentSize :: dbl
  p_files :: "zfile list"
  files :: "zfile list option"

text \<open>Truthiness of \<open>this.size\<close>: \<open>null\<close> and \<open>0\<close> are falsy.\<close>

fun truthy_size :: "int option \<Rightarrow> bool" where
  "truthy_size None = False"
| "truthy_size (Some n) = (n \<noteq> 0)"

section \<open>The constructor\<close>

text \<open>
  The callback of \<open>files.map\<close>: it validates one descriptor and returns the conformed
  file, together with whether its size was given.
\<close>

definition conform_file :: "jsval \<Rightarrow> error + (zfile \<times> bool)" where
  "conform_file v =
     (case v of
        JObj ps \<Rightarrow>
          (case get_prop ps ''path'' of
             JStr p \<Rightarrow>
               (case get_prop ps ''filename'' of
                  JStr n \<Rightarrow>
                    (if eq_null (get_prop ps ''size'')
                     then Inr (\<lparr>path = p, filename = n, file_size = None,
                                crc32Watcher = None, compressedSizeCounter = None\<rparr>, False)
                     else if isPositiveIntegerOrZero (get_prop ps ''size'')
                     then Inr (\<lparr>path = p, filename = n,
                                file_size = Some (nat (js_int (get_prop ps ''size''))),
                                crc32Watcher = None, compressedSizeCounter = None\<rparr>, True)
                     else Inl (Invariant ''file objects' `.size` property must be an integer or null''))
                | _ \<Rightarrow> Inl (Invariant ''file objects must have a string `filename` property''))
           | _ \<Rightarrow> Inl (Invariant ''file objects must have a string `path` property''))
      | _ \<Rightarrow> Inl (Invariant ''files must be objects or strings''))"

text \<open>
  \<open>files.map\<close> itself: the descriptors are visited in order, the first failing assertion
  ends the constructor, and \<open>allFileSizesKnown\<close> is cleared by every descriptor without
  a size.
\<close>

fun conform_files :: "jsval list \<Rightarrow> bool \<Rightarrow> error + (zfile list \<times> bool)" where
  "conform_files [] known = Inr ([], known)"
| "conform_files (v # vs) known =
     (case conform_file v of
        Inl e \<Rightarrow> Inl e
      | Inr (f, k) \<Rightarrow>
          (case conform_files vs (known \<and> k) of
             Inl e \<Rightarrow> Inl e
           | Inr (fs, known') \<Rightarrow> Inr (f # fs, known')))"

text \<open>
  \<open>_calculateZipSize\<close>: a fresh encoder whose output is discarded receives every file
  of the catalog, then \<open>end\<close>; the callback stores the size, and the assertion checks
  that \<open>this.size\<close> is truthy. The loop is \<open>add_all\<close>; it returns the history of the
  encoder. A method that throws leaves the instance as it is at that moment, so every
  method returns the error (if any) and the instance.
\<close>

definition entry_key :: "zfile \<Rightarrow> string \<times> nat option" where
  "entry_key f = (filename f, file_size f)"

fun add_all :: "encoder \<Rightarrow> history \<Rightarrow> zfile list \<Rightarrow> error + history" where
  "add_all enc h [] = Inr h"
| "add_all enc h (f # fs) =
     (if add_throws (addReadStream enc h (filename f) (file_size f))
      then Inl EncoderError
      else add_all enc (h @ [entry_key f]) fs)"

definition calculateZipSize :: "encoder \<Rightarrow> Zip \<Rightarrow> error option \<times> Zip" where
  "calculateZipSize enc z =
     (case add_all enc [] (p_files z) of
        Inl e \<Rightarrow> (Some e, z)
      | Inr h \<Rightarrow>
          (case end_zip enc h of
             EndThrows \<Rightarrow> (Some EncoderError, z)
           | EndSilent \<Rightarrow>
               (if truthy_size (zip_size z) then (None, z)
                else (Some (Invariant ''Failed to calculate size''), z))
           | EndCalls n \<Rightarrow>
               (if truthy_size (Some n) then (None, z\<lparr>zip_size := Some n\<rparr>)
                else (Some (Invariant ''Failed to calculate size''), z\<lparr>zip_size := Some n\<rparr>))))"

text \<open>
  The constructor: the fields as its first statements set them, with the conformed
  catalog; then the size calculation, if every descriptor carried a size.
\<close>

definition new_instance :: "zfile list \<Rightarrow> Zip" where
  "new_instance fs =
     \<lparr>zip_size = None, p_chunks = [], p_zip = [], p_outputs = [],
      p_currentFileIndex = None, p_nextFileIndex = 0, p_currentSize = Fin 0,
      p_files = fs, files = None\<rparr>"

definition constructor :: "encoder \<Rightarrow> jsval \<Rightarrow> error + Zip" where
  "constructor enc fls =
     (case fls of
        JArr vs \<Rightarrow>
          (case conform_files vs True of
             Inl e \<Rightarrow> Inl e
           | Inr (fs, sizesKnown) \<Rightarrow>
               (if sizesKnown
                then (case calculateZipSize enc (new_instance fs) of
                        (Some e, z') \<Rightarrow> Inl e
                      | (None, z') \<Rightarrow> Inr z')
                else Inr (new_instance fs)))
      | _ \<Rightarrow> Inl (Invariant ''files must be an array''))"

section \<open>\<open>init\<close>\<close>

text \<open>
  The loop of \<open>init\<close>: a file without a size gets the size \<open>stat\<close> reports; a rejected
  \<open>stat\<close> ends the loop with the files before it already updated. The file system is
  the function from a path to the size of the file there, if there is one.
\<close>

fun stat_all :: "(string \<Rightarrow> nat option) \<Rightarrow> zfile list \<Rightarrow> error option \<times> zfile list" where
  "stat_all stat [] = (None, [])"
| "stat_all stat (f # fs) =
     (case file_size f of
        Some n \<Rightarrow> (case stat_all stat fs of (e, fs') \<Rightarrow> (e, f # fs'))
      | None \<Rightarrow>
          (case stat (path f) of
             None \<Rightarrow> (Some (StatError (path f)), f # fs)
           | Some n \<Rightarrow> (case stat_all stat fs of (e, fs') \<Rightarrow> (e, f\<lparr>file_size := Some n\<rparr> # fs'))))"

text \<open>
  \<open>init\<close> iterates over \<open>this.files\<close>, not over \<open>this._files\<close>. Iterating over
  \<open>undefined\<close> throws a \<open>TypeError\<close>, which rejects the promise \<open>init\<close> returns; this
  happens before the first \<open>await\<close>, so no other call can run in between. Were
  \<open>this.files\<close> a list, the loop would update its file objects one \<open>stat\<close> after the
  other; the model runs them in sequence.
\<close>

definition init :: "encoder \<Rightarrow> (string \<Rightarrow> nat option) \<Rightarrow> Zip \<Rightarrow> error option \<times> Zip" where
  "init enc stat z =
     (if truthy_size (zip_size z) then (None, z)
      else (case files z of
              None \<Rightarrow> (Some (TypeError ''this.files is not iterable''), z)
            | Some fs \<Rightarrow>
                (case stat_all stat fs of
                   (Some e, fs') \<Rightarrow> (Some e, z\<lparr>files := Some fs'\<rparr>)
                 | (None, fs') \<Rightarrow> calculateZipSize enc (z\<lparr>files := Some fs'\<rparr>))))"

section \<open>\<open>getStream\<close> and the sequential producer\<close>

text \<open>
  The calls of \<open>fakeReadStream.pipe\<close> made by the encoder, with the counter
  \<open>streamIndex\<close>: the first stream becomes \<open>file.crc32Watcher\<close>, the fourth
  \<open>file.compressedSizeCounter\<close>. (The assignments to \<open>stream.byteCount\<close> change an object
  of the encoder, not the instance.)
\<close>

fun pipe_calls :: "nat \<Rightarrow> stream list \<Rightarrow> zfile \<Rightarrow> zfile" where
  "pipe_calls streamIndex [] f = f"
| "pipe_calls streamIndex (s # ss) f =
     pipe_calls (streamIndex + 1) ss
       (if streamIndex = 0 then f\<lparr>crc32Watcher := Some s\<rparr>
        else if streamIndex = 3 then f\<lparr>compressedSizeCounter := Some s\<rparr>
        else f)"

text \<open>The \<open>write\<close> installed by the constructor on \<open>this._zip\<close> pushes one chunk per buffer.\<close>

definition chunk_of :: "byte list \<times> int \<Rightarrow> chunk" where
  "chunk_of w = \<lparr>buff = fst w, chunk_file = None, chunk_offset = snd w\<rparr>"

text \<open>
  The number \<open>this.size\<close> in a comparison, and \<open>file.size\<close> in a sum; \<open>null\<close> counts
  as \<open>0\<close> in both.
\<close>

fun size_int :: "int option \<Rightarrow> int" where
  "size_int None = 0"
| "size_int (Some n) = n"


fun size_num :: "nat option \<Rightarrow> int" where
  "size_num None = 0"
| "size_num (Some n) = int n"

text \<open>
  \<open>_startNextFile\<close>. The branch for \<open>this._files.length === this._nextFileIndex\<close> is
  empty in the source, so the method goes on; \<open>this._files[i]\<close> beyond the end is
  \<open>undefined\<close> and reading \<open>file.filename\<close> throws before the encoder is called.
  \<open>_nextFileIndex\<close> is not changed by the method.
\<close>

definition startNextFile :: "encoder \<Rightarrow> Zip \<Rightarrow> error option \<times> Zip" where
  "startNextFile enc z =
     (let i = p_nextFileIndex z;
          z1 = z\<lparr>p_currentFileIndex := Some i\<rparr>
      in if length (p_files z1) \<le> i
         then (Some (TypeError ''Cannot read properties of undefined (reading 'filename')''), z1)
         else
           (let file = p_files z1 ! i;
                numChunks = length (p_chunks z1);
                eff = addReadStream enc (p_zip z1) (filename file) (file_size file);
                file' = pipe_calls 0 (pipes eff) file;
                z2 = z1\<lparr>p_chunks := p_chunks z1 @ map chunk_of (writes eff),
                        p_zip := p_zip z1 @ [entry_key file],
                        p_files := (p_files z1)[i := file']\<rparr>
            in if add_throws eff then (Some EncoderError, z2)
               else if length (p_chunks z2) \<noteq> numChunks + 1
               then (Some (Invariant ''yazl did not write local file header''), z2)
               else if crc32Watcher file' = None
               then (Some (Invariant ''Failed to capture yazl streams''), z2)
               else if compressedSizeCounter file' = None
               then (Some (Invariant ''Failed to capture yazl streams''), z2)
               else
                 (let localFileHeaderChunk = p_chunks z2 ! numChunks
                  in (None, z2\<lparr>p_currentSize :=
                                  dbl_add
                                    (dbl_add (Fin (chunk_offset localFileHeaderChunk))
                                       (Fin (int (length (buff localFileHeaderChunk)))))
                                    (Fin (size_num (file_size file)))\<rparr>))))"

text \<open>\<open>_startOutput\<close> has an empty body.\<close>

definition startOutput :: "Zip \<Rightarrow> zoutput \<Rightarrow> Zip" where
  "startOutput z out = z"

text \<open>
  \<open>getStream\<close>. The four assertions come first; then the request is created and added
  to \<open>_outputs\<close>, and either \<open>_startOutput\<close> or \<open>_startNextFile\<close> runs or nothing does.
  The result is the error thrown or the stream returned, with the instance. The sums
  \<open>offset + length\<close> here and \<open>offset + buff.length + file.size\<close> in \<open>_startNextFile\<close>
  are sums of doubles.
\<close>

definition getStream :: "encoder \<Rightarrow> Zip \<Rightarrow> jsval \<Rightarrow> jsval \<Rightarrow> (error + passthrough) \<times> Zip" where
  "getStream enc z offset len =
     (if \<not> truthy_size (zip_size z)
      then (Inl (Invariant ''Must call `zip.init()` if file sizes not provided for all files''), z)
      else if \<not> isPositiveIntegerOrZero offset
      then (Inl (Invariant ''`offset` must be a positive integer''), z)
      else if \<not> isPositiveInteger len
      then (Inl (Invariant ''`length` must be a positive integer greater than 0''), z)
      else if \<not> dbl_le (dbl_add (Fin (js_int offset)) (Fin (js_int len)))
                       (Fin (size_int (zip_size z)))
      then (Inl (Invariant ''End of chunk is beyond end of file''), z)
      else
        (let outputStream = PassThrough [];
             out = \<lparr>stream = outputStream, out_offset = js_int offset,
                    out_length = js_int len, pos = js_int offset\<rparr>;
             z1 = z\<lparr>p_outputs := p_outputs z @ [out]\<rparr>
         in if dbl_less (Fin (js_int offset)) (p_currentSize z1)
            then (Inr outputStream, startOutput z1 out)
            else if p_currentFileIndex z1 = None
            then (case startNextFile enc z1 of
                    (Some e, z2) \<Rightarrow> (Inl e, z2)
                  | (None, z2) \<Rightarrow> (Inr outputStream, z2))
            else (Inr outputStream, z1)))"

section \<open>Reachable instances\<close>

text \<open>
  The public interface is the constructor, \<open>init\<close> and \<open>getStream\<close>. An instance is
  reachable when it is the result of the constructor followed by any sequence of calls
  of the two methods, with any arguments, whether the call returns or throws.
\<close>

inductive reachable :: "encoder \<Rightarrow> (string \<Rightarrow> nat option) \<Rightarrow> Zip \<Rightarrow> bool"
  for enc :: encoder and stat :: "string \<Rightarrow> nat option" where
  reach_new: "constructor enc fls = Inr z \<Longrightarrow> reachable enc stat z"
| reach_init: "reachable enc stat z \<Longrightarrow> reachable enc stat (snd (init enc stat z))"
| reach_getStream: "reachable enc stat z \<Longrightarrow> reachable enc stat (snd (getStream enc z offset len))"

text \<open>Every entry of a catalog has a size.\<close>

definition allFileSizesKnown :: "zfile list \<Rightarrow> bool" where
  "allFileSizesKnown fs = list_all (\<lambda>f. file_size f \<noteq> None) fs"

text \<open>
  The size-calculation pass has completed for an instance: run on its catalog, the pass
  returns without throwing and gives the size the instance has.
\<close>

definition planned :: "encoder \<Rightarrow> Zip \<Rightarrow> bool" where
  "planned enc z =
     (case calculateZipSize enc (z\<lparr>zip_size := None\<rparr>) of
        (None, z') \<Rightarrow> zip_size z' = zip_size z
      | (Some e, z') \<Rightarrow> False)"

text \<open>
  The three assertions of \<open>getStream\<close> on the range (the spec's \<open>InvalidRangeError\<close>).
\<close>

fun range_error :: "error + passthrough \<Rightarrow> bool" where
  "range_error (Inl (Invariant m)) =
     (m = ''`offset` must be a positive integer''
      \<or> m = ''`length` must be a positive integer greater than 0''
      \<or> m = ''End of chunk is beyond end of file'')"
| "range_error r = False"

section \<open>An encoder to run the examples\<close>

text \<open>
  Modelled from the spec: the external encoder (\<open>ZipFile\<close> of yazl), which is not among
  the sources. For an entry it emits one local header buffer (\<open>30\<close> bytes plus the
  name), then expects the data of the declared length, then a data descriptor; \<open>end\<close>
  reports the size of the whole archive, with a central directory record per entry and
  the end record. The sizes follow yazl's own computation of the final size for stored
  entries: descriptor \<open>16\<close> bytes, central record \<open>46\<close> plus the name, end record \<open>22\<close>;
  an entry whose size or offset exceeds \<open>0xfffffffe\<close> is in ZIP64 format (descriptor
  \<open>24\<close>, central record \<open>28\<close> more), and a large archive has the ZIP64 end records
  (\<open>76\<close> more). Header bytes are zero here; no example depends on them.

  The read streams the class hands over never produce data, so an entry is never
  finished: only the first \<open>addReadStream\<close> of an instance writes a header, piping the
  read stream through five streams, and with no entry \<open>end\<close> reaches the call of
  \<open>outputStream.end\<close>, which the output of the size calculation does not have. yazl
  refuses the empty name (other names it refuses are not modelled) and answers \<open>-1\<close>
  when a size is missing.
\<close>

fun final_size_loop :: "history \<Rightarrow> int \<Rightarrow> int \<Rightarrow> int \<times> int" where
  "final_size_loop [] pretendOutputCursor centralDirectorySize =
     (pretendOutputCursor, centralDirectorySize)"
| "final_size_loop ((n, s) # h) pretendOutputCursor centralDirectorySize =
     (let useZip64Format = (4294967294 < size_num s \<or> 4294967294 < pretendOutputCursor)
      in final_size_loop h
           (pretendOutputCursor + 30 + int (length n) + size_num s
              + (if useZip64Format then 24 else 16))
           (centralDirectorySize + 46 + int (length n)
              + (if useZip64Format then 28 else 0)))"

definition calculateFinalSize :: "history \<Rightarrow> int" where
  "calculateFinalSize h =
     (if list_all (\<lambda>e. snd e \<noteq> None) h
      then (case final_size_loop h 0 0 of
              (pretendOutputCursor, centralDirectorySize) \<Rightarrow>
                pretendOutputCursor + centralDirectorySize
                + (if 65535 \<le> length h then 76
                   else if 65535 \<le> centralDirectorySize then 76
                   else if 4294967295 \<le> pretendOutputCursor then 76
                   else 0)
                + 22)
      else - 1)"

definition stored_encoder :: encoder where
  "stored_encoder =
     \<lparr>addReadStream = (\<lambda>h n s.
         if n = [] then \<lparr>writes = [], pipes = [], add_throws = True\<rparr>
         else if h = []
         then \<lparr>writes = [(replicate (30 + length n) 0, 0)],
               pipes = [0, 1, 2, 3, 4],
               add_throws = False\<rparr>
         else \<lparr>writes = [], pipes = [], add_throws = False\<rparr>),
      end_zip = (\<lambda>h. if h = [] then EndThrows else EndCalls (calculateFinalSize h))\<rparr>"

text \<open>An encoder that writes no header, and a file system with one file of five bytes.\<close>

definition silent_encoder :: encoder where
  "silent_encoder =
     stored_encoder\<lparr>addReadStream := (\<lambda>h n s. \<lparr>writes = [], pipes = [0, 1, 2, 3, 4], add_throws = False\<rparr>)\<rparr>"

definition one_file_fs :: "string \<Rightarrow> nat option" where
  "one_file_fs p = (if p = ''a'' then Some 5 else None)"

text \<open>The descriptor \<open>{path, filename, size}\<close> and the descriptor \<open>{path, filename}\<close>.\<close>

definition descriptor :: "string \<Rightarrow> string \<Rightarrow> int \<Rightarrow> jsval" where
  "descriptor p n s = JObj [(''path'', JStr p), (''filename'', JStr n), (''size'', JNum (Integer s))]"

definition descriptor_no_size :: "string \<Rightarrow> string \<Rightarrow> jsval" where
  "descriptor_no_size p n = JObj [(''path'', JStr p), (''filename'', JStr n)]"

text \<open>
  The request object \<open>getStream\<close> creates, and the instance once the request has been
  added to \<open>_outputs\<close>.
\<close>

definition new_output :: "jsval \<Rightarrow> jsval \<Rightarrow> zoutput" where
  "new_output offset len =
     \<lparr>stream = PassThrough [], out_offset = js_int offset, out_length = js_int len, pos = js_int offset\<rparr>"

definition add_output :: "Zip \<Rightarrow> jsval \<Rightarrow> jsval \<Rightarrow> Zip" where
  "add_output z offset len = z\<lparr>p_outputs := p_outputs z @ [new_output offset len]\<rparr>"

text \<open>The instance the constructor builds, with this encoder, from \<open>[{path: 'a', filename: 'a.txt', size: 5}]\<close>.\<close>

definition example_zip :: Zip where
  "example_zip =
     (new_instance [\<lparr>path = ''a'', filename = ''a.txt'', file_size = Some 5,
                     crc32Watcher = None, compressedSizeCounter = None\<rparr>])\<lparr>zip_size := Some 129\<rparr>"

text \<open>
  The relation between the size and the catalog that holds of every reachable instance.
\<close>

definition size_inv :: "encoder \<Rightarrow> Zip \<Rightarrow> bool" where
  "size_inv enc z =
     ((zip_size z \<noteq> None) = allFileSizesKnown (p_files z)
      \<and> (if zip_size z = None then True else planned enc z))"

text \<open>
  An entry whose streams have not been captured has not been handed to the encoder by
  \<open>_startNextFile\<close>. The invariant of the producer: the entries handed to the encoder
  of the instance are an initial part of the catalog, at most one, and no entry after
  the first has been opened.
\<close>

definition not_opened :: "zfile \<Rightarrow> bool" where
  "not_opened f = (crc32Watcher f = None \<and> compressedSizeCounter f = None)"

definition order_inv :: "Zip \<Rightarrow> bool" where
  "order_inv z =
     (prefix (p_zip z) (map entry_key (p_files z))
      \<and> length (p_zip z) \<le> 1
      \<and> (case p_currentFileIndex z of None \<Rightarrow> p_zip z = [] | Some i \<Rightarrow> i = 0)
      \<and> list_all not_opened (drop 1 (p_files z)))"

text \<open>The catalog of the spec's scenario, \<open>a.txt\<close> of five bytes and \<open>b.txt\<close> of three.\<close>

definition two_files :: "zfile list" where
  "two_files =
     [\<lparr>path = ''a'', filename = ''a.txt'', file_size = Some 5,
       crc32Watcher = None, compressedSizeCounter = None\<rparr>,
      \<lparr>path = ''b'', filename = ''b.txt'', file_size = Some 3,
       crc32Watcher = None, compressedSizeCounter = None\<rparr>]"

definition two_zip :: Zip where
  "two_zip = (new_instance two_files)\<lparr>zip_size := Some 234\<rparr>"

text \<open>
  That instance after \<open>getStream(0, 1)\<close> and then \<open>getStream(91, 1)\<close>, the first byte of
  the data of \<open>b.txt\<close>.
\<close>

definition two_zip_later :: Zip where
  "two_zip_later =
     snd (getStream stored_encoder
            (snd (getStream stored_encoder two_zip (JNum (Integer 0)) (JNum (Integer 1))))
            (JNum (Integer 91)) (JNum (Integer 1)))"

text \<open>
  The one-file instance after \<open>getStream(0, 1)\<close>; the instance the constructor builds
  from \<open>[{path: 'a', filename: 'a.txt'}]\<close>; and the property that no byte has been
  written to the stream of any request.
\<close>

definition started_zip :: Zip where
  "started_zip =
     example_zip\<lparr>p_chunks := [\<lparr>buff = replicate 35 0, chunk_file = None, chunk_offset = 0\<rparr>],
                  p_zip := [(''a.txt'', Some 5)],
                  p_outputs := [\<lparr>stream = PassThrough [], out_offset = 0, out_length = 1, pos = 0\<rparr>],
                  p_currentFileIndex := Some 0,
                  p_currentSize := Fin 40,
                  p_files := [\<lparr>path = ''a'', filename = ''a.txt'', file_size = Some 5,
                                crc32Watcher = Some 0, compressedSizeCounter = Some 3\<rparr>]\<rparr>"

definition unsized_zip :: Zip where
  "unsized_zip =
     new_instance [\<lparr>path = ''a'', filename = ''a.txt'', file_size = None,
                    crc32Watcher = None, compressedSizeCounter = None\<rparr>]"

definition silent_outputs :: "Zip \<Rightarrow> bool" where
  "silent_outputs z = list_all (\<lambda>out. written (stream out) = []) (p_outputs z)"

text \<open>
  The descriptors the validation accepts, stated on the descriptor: an object whose
  \<open>path\<close> and \<open>filename\<close> are strings and whose \<open>size\<close> is \<open>null\<close>, \<open>undefined\<close> or a
  non-negative integer.
\<close>

definition valid_descriptor :: "jsval \<Rightarrow> bool" where
  "valid_descriptor v =
     (case v of
        JObj ps \<Rightarrow>
          isString (get_prop ps ''path'') \<and> isString (get_prop ps ''filename'')
          \<and> (eq_null (get_prop ps ''size'') \<or> isPositiveIntegerOrZero (get_prop ps ''size''))
      | _ \<Rightarrow> False)"

text \<open>
  The catalog entry of a descriptor with size \<open>0\<close>, and the instance the constructor
  builds from \<open>[{path: 'a', filename: 'a.txt', size: 5}, {path: 'e', filename: 'empty.txt', size: 0}]\<close>.
\<close>

definition zero_file :: "string \<Rightarrow> string \<Rightarrow> zfile" where
  "zero_file p n = \<lparr>path = p, filename = n, file_size = Some 0,
                    crc32Watcher = None, compressedSizeCounter = None\<rparr>"

definition zero_zip :: Zip where
  "zero_zip =
     (new_instance [\<lparr>path = ''a'', filename = ''a.txt'', file_size = Some 5,
                     crc32Watcher = None, compressedSizeCounter = None\<rparr>,
                    zero_file ''e'' ''empty.txt''])\<lparr>zip_size := Some 239\<rparr>"

text \<open>The four assertions of \<open>getStream\<close>: the size is computed, and the three on the range.\<close>

fun precondition_error :: "error + passthrough \<Rightarrow> bool" where
  "precondition_error (Inl (Invariant m)) =
     (m = ''Must call `zip.init()` if file sizes not provided for all files''
      \<or> m = ''`offset` must be a positive integer''
      \<or> m = ''`length` must be a positive integer greater than 0''
      \<or> m = ''End of chunk is beyond end of file'')"
| "precondition_error r = False"


section \<open>Facts about sums of numbers\<close>

lemma ulp_small: "x < 9007199254740992 \<Longrightarrow> ulp x = 1"
  by (simp add: ulp.simps)


lemma round_nonneg_small: "0 \<le> x \<Longrightarrow> x < 9007199254740992 \<Longrightarrow> round_nonneg x = x"
  by (simp add: round_nonneg_def ulp_small)



lemma round_nonneg_exact:
  assumes "0 \<le> x" "x \<le> 9007199254740992"
  shows "round_nonneg x = x"
proof (cases "x < 9007199254740992")
  case True
  with assms(1) show ?thesis by (rule round_nonneg_small)
next
  case False
  with assms(2) have x: "x = 9007199254740992" by simp
  have "ulp 9007199254740992 = 2" by (simp add: ulp.simps)
  then show ?thesis unfolding x by (simp add: round_nonneg_def)
qed

lemma round_dbl_exact:
  assumes "0 \<le> x" "x \<le> 9007199254740992"
  shows "round_dbl x = Fin x"
proof -
  have "(9007199254740992 :: int) < 2 ^ 1024" by simp
  with assms have "\<not> 2 ^ 1024 \<le> x" "\<not> x \<le> - (2 ^ 1024)" by linarith+
  with assms show ?thesis by (simp add: round_dbl_def round_nonneg_exact)
qed

lemma dbl_add_exact:
  "0 \<le> a + b \<Longrightarrow> a + b \<le> 9007199254740992 \<Longrightarrow> dbl_add (Fin a) (Fin b) = Fin (a + b)"
  by (simp add: round_dbl_exact)




section \<open>Facts about the constructor and the size calculation\<close>

lemma conform_file_fresh:
  "conform_file v = Inr (f, k) \<Longrightarrow>
     k = (file_size f \<noteq> None) \<and> crc32Watcher f = None \<and> compressedSizeCounter f = None"
  by (auto simp: conform_file_def split: jsval.splits if_splits)

lemma conform_files_known:
  "conform_files vs known = Inr (fs, known') \<Longrightarrow>
     known' = (known \<and> allFileSizesKnown fs) \<and> length fs = length vs"
proof (induction vs arbitrary: known fs known')
  case Nil
  then show ?case by (simp add: allFileSizesKnown_def)
next
  case (Cons v vs)
  from Cons.prems obtain f k fs0 where
    f: "conform_file v = Inr (f, k)" and
    r: "conform_files vs (known \<and> k) = Inr (fs0, known')" and
    fs: "fs = f # fs0"
    by (auto split: sum.splits prod.splits)
  from Cons.IH [OF r] conform_file_fresh [OF f] fs show ?case
    by (auto simp: allFileSizesKnown_def)
qed

lemma conform_files_fresh:
  "conform_files vs known = Inr (fs, known') \<Longrightarrow>
     list_all (\<lambda>f. crc32Watcher f = None \<and> compressedSizeCounter f = None) fs"
proof (induction vs arbitrary: known fs known')
  case Nil
  then show ?case by simp
next
  case (Cons v vs)
  from Cons.prems obtain f k fs0 where
    f: "conform_file v = Inr (f, k)" and
    r: "conform_files vs (known \<and> k) = Inr (fs0, known')" and
    fs: "fs = f # fs0"
    by (auto split: sum.splits prod.splits)
  from Cons.IH [OF r] conform_file_fresh [OF f] fs show ?case
    by simp
qed

lemma calculateZipSize_state:
  "snd (calculateZipSize enc z) = z \<or> (\<exists>n. snd (calculateZipSize enc z) = z\<lparr>zip_size := Some n\<rparr>)"
  by (auto simp: calculateZipSize_def split: sum.splits end_effect.splits)

lemma calculateZipSize_ok:
  "calculateZipSize enc z = (None, z') \<Longrightarrow>
     truthy_size (zip_size z') \<and> z' = z\<lparr>zip_size := zip_size z'\<rparr>"
  by (auto simp: calculateZipSize_def split: sum.splits end_effect.splits if_splits)

lemma add_all_cong:
  "map entry_key fs = map entry_key fs' \<Longrightarrow> add_all enc h fs = add_all enc h fs'"
proof (induction fs arbitrary: fs' h)
  case Nil
  then show ?case by simp
next
  case (Cons f fs)
  then obtain g gs where g: "fs' = g # gs" by (cases fs') auto
  with Cons.prems have k: "entry_key f = entry_key g" and r: "map entry_key fs = map entry_key gs"
    by simp_all
  from k have "filename f = filename g" "file_size f = file_size g"
    by (simp_all add: entry_key_def)
  with Cons.IH [OF r] g k show ?case by simp
qed

lemma planned_cong:
  assumes "map entry_key (p_files z) = map entry_key (p_files z')" "zip_size z = zip_size z'"
  shows "planned enc z = planned enc z'"
proof -
  have a: "add_all enc [] (p_files z) = add_all enc [] (p_files z')"
    using assms(1) by (rule add_all_cong)
  show ?thesis
    unfolding planned_def calculateZipSize_def
    using a assms(2) by (simp split: sum.splits end_effect.splits)
qed

lemma constructor_not_array: "\<not> isArray fls \<Longrightarrow> constructor enc fls = Inl (Invariant ''files must be an array'')"
  by (cases fls) (simp_all add: constructor_def)

lemma constructor_invalid:
  "conform_files vs True = Inl e \<Longrightarrow> constructor enc (JArr vs) = Inl e"
  by (simp add: constructor_def)

lemma constructor_unknown:
  "conform_files vs True = Inr (fs, False) \<Longrightarrow> constructor enc (JArr vs) = Inr (new_instance fs)"
  by (simp add: constructor_def)

lemma constructor_known:
  "conform_files vs True = Inr (fs, True) \<Longrightarrow>
     constructor enc (JArr vs) =
       (case calculateZipSize enc (new_instance fs) of (Some e, z') \<Rightarrow> Inl e | (None, z') \<Rightarrow> Inr z')"
  by (simp add: constructor_def)


lemma constructor_cases:
  assumes "constructor enc fls = Inr z"
  obtains vs fs where "fls = JArr vs" "conform_files vs True = Inr (fs, False)" "z = new_instance fs"
  | vs fs where "fls = JArr vs" "conform_files vs True = Inr (fs, True)"
      "calculateZipSize enc (new_instance fs) = (None, z)"
proof -
  have "isArray fls"
    using assms constructor_not_array [of fls enc] by auto
  then obtain vs where vs: "fls = JArr vs" by (cases fls) simp_all
  have "\<not> isl (conform_files vs True)"
    using assms vs constructor_invalid [of vs _ enc] by (cases "conform_files vs True") simp_all
  then obtain fs k where c: "conform_files vs True = Inr (fs, k)"
    by (cases "conform_files vs True") auto
  show thesis
  proof (cases k)
    case False
    have "constructor enc (JArr vs) = Inr (new_instance fs)"
      using c False by (simp add: constructor_unknown)
    with assms vs have z: "z = new_instance fs" by simp
    from c False have c': "conform_files vs True = Inr (fs, False)" by simp
    from vs c' z show thesis by (rule that(1))
  next
    case True
    have "constructor enc (JArr vs) =
       (case calculateZipSize enc (new_instance fs) of (Some e, z') \<Rightarrow> Inl e | (None, z') \<Rightarrow> Inr z')"
      using c True by (simp add: constructor_known)
    with assms vs
    have "(case calculateZipSize enc (new_instance fs) of (Some e, z') \<Rightarrow> Inl e | (None, z') \<Rightarrow> Inr z') = Inr z"
      by simp
    then have z: "calculateZipSize enc (new_instance fs) = (None, z)"
      by (cases "calculateZipSize enc (new_instance fs)") (auto split: option.splits)
    from c True have c': "conform_files vs True = Inr (fs, True)" by simp
    from vs c' z show thesis by (rule that(2))
  qed
qed

section \<open>Facts about the methods\<close>

lemma pipe_calls_key:
  "path (pipe_calls i ss f) = path f \<and> filename (pipe_calls i ss f) = filename f
     \<and> file_size (pipe_calls i ss f) = file_size f"
  by (induction i ss f rule: pipe_calls.induct) simp_all

lemma pipe_calls_entry_key: "entry_key (pipe_calls i ss f) = entry_key f"
  by (simp add: entry_key_def pipe_calls_key)

lemma startNextFile_fields:
  "zip_size (snd (startNextFile enc z)) = zip_size z"
  "files (snd (startNextFile enc z)) = files z"
  "p_outputs (snd (startNextFile enc z)) = p_outputs z"
  "p_nextFileIndex (snd (startNextFile enc z)) = p_nextFileIndex z"
  "p_currentFileIndex (snd (startNextFile enc z)) = Some (p_nextFileIndex z)"
  "length (p_files (snd (startNextFile enc z))) = length (p_files z)"
  by (simp_all add: startNextFile_def Let_def)

lemma startNextFile_zip:
  "p_zip (snd (startNextFile enc z)) =
     (if p_nextFileIndex z < length (p_files z)
      then p_zip z @ [entry_key (p_files z ! p_nextFileIndex z)] else p_zip z)"
  by (simp add: startNextFile_def Let_def)

lemma startNextFile_other_files:
  "j \<noteq> p_nextFileIndex z \<Longrightarrow> p_files (snd (startNextFile enc z)) ! j = p_files z ! j"
  by (simp add: startNextFile_def Let_def)

lemma startNextFile_files:
  "p_files (snd (startNextFile enc z)) =
     (if p_nextFileIndex z < length (p_files z)
      then (p_files z)[p_nextFileIndex z :=
             pipe_calls 0
               (pipes (addReadStream enc (p_zip z) (filename (p_files z ! p_nextFileIndex z))
                         (file_size (p_files z ! p_nextFileIndex z))))
               (p_files z ! p_nextFileIndex z)]
      else p_files z)"
  by (simp add: startNextFile_def Let_def)

lemma map_update_same_key:
  "i < length xs \<Longrightarrow> entry_key y = entry_key (xs ! i) \<Longrightarrow>
     map entry_key (xs[i := y]) = map entry_key xs"
  by (simp add: map_update list_eq_iff_nth_eq nth_list_update)

lemma startNextFile_keys:
  "map entry_key (p_files (snd (startNextFile enc z))) = map entry_key (p_files z)"
  by (simp add: startNextFile_files map_update_same_key pipe_calls_entry_key)

lemma getStream_state:
  "snd (getStream enc z offset len) = z
   \<or> snd (getStream enc z offset len) = add_output z offset len
   \<or> (p_currentFileIndex z = None
       \<and> snd (getStream enc z offset len) = snd (startNextFile enc (add_output z offset len)))"
  by (simp add: getStream_def Let_def startOutput_def add_output_def new_output_def
      split: prod.splits option.splits)

lemma init_state:
  "files z = None \<Longrightarrow> snd (init enc stat z) = z"
  by (simp add: init_def)

lemma add_output_fields:
  "zip_size (add_output z offset len) = zip_size z"
  "files (add_output z offset len) = files z"
  "p_files (add_output z offset len) = p_files z"
  "p_zip (add_output z offset len) = p_zip z"
  "p_nextFileIndex (add_output z offset len) = p_nextFileIndex z"
  "p_currentFileIndex (add_output z offset len) = p_currentFileIndex z"
  "p_outputs (add_output z offset len) = p_outputs z @ [new_output offset len]"
  by (simp_all add: add_output_def)

lemma constructor_state:
  assumes "constructor enc fls = Inr z"
  obtains fs where "z = (new_instance fs)\<lparr>zip_size := zip_size z\<rparr>"
proof -
  from assms show thesis
  proof (cases rule: constructor_cases)
    case (1 vs fs)
    then have "z = (new_instance fs)\<lparr>zip_size := zip_size z\<rparr>" by simp
    then show thesis by (rule that)
  next
    case (2 vs fs)
    from calculateZipSize_ok [OF 2(3)]
    have "z = (new_instance fs)\<lparr>zip_size := zip_size z\<rparr>" by simp
    then show thesis by (rule that)
  qed
qed

lemma constructor_fresh:
  assumes "constructor enc fls = Inr z"
  shows "files z = None" "p_nextFileIndex z = 0" "p_currentFileIndex z = None" "p_zip z = []"
    "p_outputs z = []"
proof -
  from assms obtain fs where z: "z = (new_instance fs)\<lparr>zip_size := zip_size z\<rparr>"
    by (rule constructor_state)
  have "files z = None \<and> p_nextFileIndex z = 0 \<and> p_currentFileIndex z = None \<and> p_zip z = []
        \<and> p_outputs z = []"
    by (subst z, subst z, subst z, subst z, subst z) (simp add: new_instance_def)
  then show "files z = None" "p_nextFileIndex z = 0" "p_currentFileIndex z = None" "p_zip z = []"
    "p_outputs z = []" by simp_all
qed

lemma reachable_invariant:
  assumes r: "reachable enc stat z"
    and new: "\<And>fls z. constructor enc fls = Inr z \<Longrightarrow> P z"
    and out: "\<And>z offset len. P z \<Longrightarrow> P (add_output z offset len)"
    and start: "\<And>z. P z \<Longrightarrow> p_nextFileIndex z = 0 \<Longrightarrow> p_currentFileIndex z = None
                  \<Longrightarrow> P (snd (startNextFile enc z))"
  shows "P z \<and> files z = None \<and> p_nextFileIndex z = 0"
  using r
proof (induction rule: reachable.induct)
  case (reach_new fls z)
  then show ?case by (simp add: new constructor_fresh)
next
  case (reach_init z)
  then show ?case by (simp add: init_state)
next
  case (reach_getStream z offset len)
  then have P: "P z" and f: "files z = None" and n: "p_nextFileIndex z = 0" by simp_all
  let ?z' = "snd (getStream enc z offset len)"
  from getStream_state [of enc z offset len]
  consider "?z' = z" | "?z' = add_output z offset len"
    | "p_currentFileIndex z = None" "?z' = snd (startNextFile enc (add_output z offset len))"
    by (elim disjE conjE)
  then show ?case
  proof cases
    case 1
    with P f n show ?thesis by simp
  next
    case 2
    with out [OF P] f n show ?thesis by (simp add: add_output_fields)
  next
    case 3
    have "P (snd (startNextFile enc (add_output z offset len)))"
      using out [OF P] n 3(1) by (intro start) (simp_all add: add_output_fields)
    with 3(2) f n show ?thesis by (simp add: startNextFile_fields add_output_fields)
  qed
qed

section \<open>The examples\<close>

lemma descriptor_props:
  "get_prop [(''path'', JStr p), (''filename'', JStr n), (''size'', JNum (Integer s))] ''path'' = JStr p"
  "get_prop [(''path'', JStr p), (''filename'', JStr n), (''size'', JNum (Integer s))] ''filename'' = JStr n"
  "get_prop [(''path'', JStr p), (''filename'', JStr n), (''size'', JNum (Integer s))] ''size'' = JNum (Integer s)"
  "get_prop [(''path'', JStr p), (''filename'', JStr n)] ''path'' = JStr p"
  "get_prop [(''path'', JStr p), (''filename'', JStr n)] ''filename'' = JStr n"
  "get_prop [(''path'', JStr p), (''filename'', JStr n)] ''size'' = JUndefined"
  by simp_all

lemma conform_descriptor:
  "0 \<le> s \<Longrightarrow> conform_file (descriptor p n s) =
     Inr (\<lparr>path = p, filename = n, file_size = Some (nat s),
           crc32Watcher = None, compressedSizeCounter = None\<rparr>, True)"
  unfolding conform_file_def descriptor_def
  by (simp only: descriptor_props jsval.case) (simp add: isPositiveIntegerOrZero_def)

lemma conform_descriptor_no_size:
  "conform_file (descriptor_no_size p n) =
     Inr (\<lparr>path = p, filename = n, file_size = None,
           crc32Watcher = None, compressedSizeCounter = None\<rparr>, False)"
  unfolding conform_file_def descriptor_no_size_def
  by (simp only: descriptor_props jsval.case) simp

lemma constructor_example:
  "constructor stored_encoder (JArr [descriptor ''a'' ''a.txt'' 5]) = Inr example_zip"
  by (simp add: constructor_def conform_descriptor calculateZipSize_def new_instance_def
      stored_encoder_def entry_key_def calculateFinalSize_def example_zip_def)

lemma constructor_unsized:
  "constructor stored_encoder (JArr [descriptor_no_size ''a'' ''a.txt'']) = Inr unsized_zip"
  by (simp add: constructor_def conform_descriptor_no_size unsized_zip_def)

lemma reachable_example: "reachable stored_encoder one_file_fs example_zip"
  using constructor_example by (rule reach_new)

section \<open>Claims about \<open>getStream\<close>\<close>

lemma startNextFile_not_precondition_error:
  "startNextFile enc z = (Some e, z') \<Longrightarrow> \<not> precondition_error (Inl e)"
  by (auto simp: startNextFile_def Let_def split: if_splits)


lemma getStream_passed:
  assumes "truthy_size (zip_size z)" "isPositiveIntegerOrZero offset" "isPositiveInteger len"
    "dbl_le (dbl_add (Fin (js_int offset)) (Fin (js_int len))) (Fin (size_int (zip_size z)))"
  shows "\<not> precondition_error (fst (getStream enc z offset len))"
    and "p_outputs (snd (getStream enc z offset len)) = p_outputs z @ [new_output offset len]"
proof -
  let ?z1 = "add_output z offset len"
  have g: "getStream enc z offset len =
      (if dbl_less (Fin (js_int offset)) (p_currentSize z) then (Inr (PassThrough []), ?z1)
       else if p_currentFileIndex z = None
       then (case startNextFile enc ?z1 of
               (Some e, z2) \<Rightarrow> (Inl e, z2)
             | (None, z2) \<Rightarrow> (Inr (PassThrough []), z2))
       else (Inr (PassThrough []), ?z1))"
    using assms by (simp add: getStream_def Let_def startOutput_def add_output_def new_output_def)
  show "\<not> precondition_error (fst (getStream enc z offset len))"
    unfolding g using startNextFile_not_precondition_error [of enc ?z1]
    by (cases "startNextFile enc ?z1") (auto split: option.splits)
  have "p_outputs (snd (startNextFile enc ?z1)) = p_outputs z @ [new_output offset len]"
    by (simp add: startNextFile_fields add_output_fields)
  then show "p_outputs (snd (getStream enc z offset len)) = p_outputs z @ [new_output offset len]"
    unfolding g
    by (cases "startNextFile enc ?z1") (auto simp: add_output_fields split: option.splits)
qed

lemma getStream_failed_check:
  assumes "\<not> truthy_size (zip_size z) \<or> \<not> isPositiveIntegerOrZero offset \<or> \<not> isPositiveInteger len
     \<or> \<not> dbl_le (dbl_add (Fin (js_int offset)) (Fin (js_int len))) (Fin (size_int (zip_size z)))"
  shows "precondition_error (fst (getStream enc z offset len))"
    and "snd (getStream enc z offset len) = z"
    and "truthy_size (zip_size z) \<Longrightarrow> range_error (fst (getStream enc z offset len))"
  using assms by (auto simp: getStream_def)


text \<open>
  C9. A call of \<open>getStream\<close> fails one of its four precondition checks exactly when the
  size is not computed, or the offset is not a non-negative integer, or the length is
  not a positive integer, or the sum \<open>offset + length\<close>, as the code computes it, exceeds
  the size. Whenever it does, the instance is exactly as before: nothing is added to
  \<open>_outputs\<close>, no stream is returned, and the producer's fields and the encoder are
  untouched.
\<close>

theorem getStream_rejection_keeps_state:
  "precondition_error (fst (getStream enc z offset len))
     = (\<not> truthy_size (zip_size z) \<or> \<not> isPositiveIntegerOrZero offset
        \<or> \<not> isPositiveInteger len
        \<or> \<not> dbl_le (dbl_add (Fin (js_int offset)) (Fin (js_int len)))
                    (Fin (size_int (zip_size z))))
   \<and> (precondition_error (fst (getStream enc z offset len))
        \<longrightarrow> snd (getStream enc z offset len) = z)"
proof -
  let ?bad = "\<not> truthy_size (zip_size z) \<or> \<not> isPositiveIntegerOrZero offset
        \<or> \<not> isPositiveInteger len
        \<or> \<not> dbl_le (dbl_add (Fin (js_int offset)) (Fin (js_int len)))
                    (Fin (size_int (zip_size z)))"
  have iff: "precondition_error (fst (getStream enc z offset len)) = ?bad"
  proof (cases ?bad)
    case True
    from getStream_failed_check(1) [OF True] True show ?thesis by simp
  next
    case False
    then have "truthy_size (zip_size z)" "isPositiveIntegerOrZero offset" "isPositiveInteger len"
      "dbl_le (dbl_add (Fin (js_int offset)) (Fin (js_int len))) (Fin (size_int (zip_size z)))"
      by simp_all
    from getStream_passed(1) [OF this] False show ?thesis by simp
  qed
  have "precondition_error (fst (getStream enc z offset len))
        \<longrightarrow> snd (getStream enc z offset len) = z"
  proof
    assume "precondition_error (fst (getStream enc z offset len))"
    with iff have ?bad by simp
    then show "snd (getStream enc z offset len) = z" by (rule getStream_failed_check(2))
  qed
  with iff show ?thesis by simp
qed

theorem getStream_rejection_keeps_state_witness:
  "precondition_error (fst (getStream stored_encoder example_zip (JNum (Integer 129)) (JNum (Integer 1))))
   \<and> snd (getStream stored_encoder example_zip (JNum (Integer 129)) (JNum (Integer 1))) = example_zip"
proof -
  have "dbl_add (Fin 129) (Fin 1) = Fin 130" by (simp add: round_dbl_exact)
  then have "\<not> dbl_le (dbl_add (Fin (js_int (JNum (Integer 129)))) (Fin (js_int (JNum (Integer 1)))))
               (Fin (size_int (zip_size example_zip)))"
    by (simp add: example_zip_def)
  with getStream_rejection_keeps_state [of stored_encoder example_zip "JNum (Integer 129)" "JNum (Integer 1)"]
  show ?thesis by simp
qed





section \<open>Claims about the sequential producer\<close>

text \<open>
  C7. When \<open>_startNextFile\<close> hands an entry of the catalog to the encoder and the encoder
  writes a number of buffers other than one, the method fails: with the assertion error
  \<open>yazl did not write local file header\<close> (the spec's \<open>LayoutComputationError\<close>) when
  the encoder returns, with the encoder's own exception when it throws. In both cases
  \<open>_currentSize\<close> is not computed from the captured chunks.
\<close>

theorem startNextFile_checks_header_count:
  assumes "p_nextFileIndex z < length (p_files z)"
    and "eff = addReadStream enc (p_zip z) (filename (p_files z ! p_nextFileIndex z))
                 (file_size (p_files z ! p_nextFileIndex z))"
    and "length (writes eff) \<noteq> 1"
  shows "fst (startNextFile enc z)
           = Some (if add_throws eff then EncoderError
                   else Invariant ''yazl did not write local file header'')
         \<and> p_currentSize (snd (startNextFile enc z)) = p_currentSize z"
  using assms by (simp add: startNextFile_def Let_def)

theorem startNextFile_checks_header_count_witness:
  "p_nextFileIndex example_zip < length (p_files example_zip)
   \<and> \<not> add_throws (addReadStream silent_encoder [] ''a.txt'' (Some 5))
   \<and> length (writes (addReadStream silent_encoder [] ''a.txt'' (Some 5))) \<noteq> 1
   \<and> fst (startNextFile silent_encoder example_zip)
       = Some (Invariant ''yazl did not write local file header'')
   \<and> p_currentSize (snd (startNextFile silent_encoder example_zip)) = Fin 0"
proof -
  have i: "p_nextFileIndex example_zip < length (p_files example_zip)"
    by (simp add: example_zip_def new_instance_def)
  have e: "addReadStream silent_encoder [] ''a.txt'' (Some 5)
           = addReadStream silent_encoder (p_zip example_zip)
               (filename (p_files example_zip ! p_nextFileIndex example_zip))
               (file_size (p_files example_zip ! p_nextFileIndex example_zip))"
    by (simp add: example_zip_def new_instance_def)
  have t: "\<not> add_throws (addReadStream silent_encoder [] ''a.txt'' (Some 5))"
    by (simp add: silent_encoder_def)
  have w: "length (writes (addReadStream silent_encoder [] ''a.txt'' (Some 5))) \<noteq> 1"
    by (simp add: silent_encoder_def)
  have c: "p_currentSize example_zip = Fin 0" by (simp add: example_zip_def new_instance_def)
  from startNextFile_checks_header_count [OF i e w] i t w c show ?thesis by simp
qed

section \<open>Claims about the size\<close>

lemma allFileSizesKnown_cong:
  assumes "map entry_key fs = map entry_key fs'"
  shows "allFileSizesKnown fs = allFileSizesKnown fs'"
proof -
  have "\<And>gs. allFileSizesKnown gs = list_all (\<lambda>k. snd k \<noteq> None) (map entry_key gs)"
    by (simp add: allFileSizesKnown_def entry_key_def list_all_iff)
  with assms show ?thesis by simp
qed

lemma size_inv_new:
  assumes "constructor enc fls = Inr z"
  shows "size_inv enc z"
  using assms
proof (cases rule: constructor_cases)
  case (1 vs fs)
  from conform_files_known [OF 1(2)] have "\<not> allFileSizesKnown fs" by simp
  with 1(3) show ?thesis by (simp add: size_inv_def new_instance_def)
next
  case (2 vs fs)
  from conform_files_known [OF 2(2)] have k: "allFileSizesKnown fs" by simp
  from calculateZipSize_ok [OF 2(3)]
  have t: "truthy_size (zip_size z)" and z: "z = (new_instance fs)\<lparr>zip_size := zip_size z\<rparr>"
    by simp_all
  from t have d: "zip_size z \<noteq> None" by (cases "zip_size z") simp_all
  have f: "p_files z = fs" by (subst z) (simp add: new_instance_def)
  have "z\<lparr>zip_size := None\<rparr> = new_instance fs"
    by (subst z) (simp add: new_instance_def)
  with 2(3) have "planned enc z" by (simp add: planned_def)
  with k d f show ?thesis by (simp add: size_inv_def)
qed

lemma size_inv_keys:
  assumes "size_inv enc z" "map entry_key (p_files z') = map entry_key (p_files z)"
    "zip_size z' = zip_size z"
  shows "size_inv enc z'"
  using assms allFileSizesKnown_cong [OF assms(2)] planned_cong [OF assms(2,3), of enc]
  by (simp add: size_inv_def)

lemma reachable_size_inv:
  assumes "reachable enc stat z"
  shows "size_inv enc z"
proof -
  have "size_inv enc z \<and> files z = None \<and> p_nextFileIndex z = 0"
    using assms
  proof (rule reachable_invariant)
    fix fls z assume "constructor enc fls = Inr z"
    then show "size_inv enc z" by (rule size_inv_new)
  next
    fix z offset len assume "size_inv enc z"
    then show "size_inv enc (add_output z offset len)"
      by (rule size_inv_keys) (simp_all add: add_output_fields)
  next
    fix z assume "size_inv enc z"
    then show "size_inv enc (snd (startNextFile enc z))"
      by (rule size_inv_keys) (simp_all add: startNextFile_keys startNextFile_fields)
  qed
  then show ?thesis by simp
qed

text \<open>
  C5. In every reachable instance the size is defined (not \<open>null\<close>) if and only if
  every entry of the catalog has a size and the size-calculation pass has completed for
  the catalog. In a reachable instance the pass has completed whenever every entry has
  a size: the constructor runs it then, and construction fails if it does not complete.
  So the size is defined exactly when all sizes are known, from construction on, and is
  never defined while a size is unknown.
\<close>

theorem size_defined_iff_planned:
  assumes "reachable enc stat z"
  shows "((zip_size z \<noteq> None) = (allFileSizesKnown (p_files z) \<and> planned enc z))
         \<and> ((zip_size z \<noteq> None) = allFileSizesKnown (p_files z))"
  using reachable_size_inv [OF assms] by (auto simp: size_inv_def split: if_splits)

theorem size_defined_iff_planned_witness:
  "reachable stored_encoder one_file_fs example_zip
   \<and> zip_size example_zip \<noteq> None
   \<and> allFileSizesKnown (p_files example_zip) \<and> planned stored_encoder example_zip
   \<and> reachable stored_encoder one_file_fs unsized_zip
   \<and> zip_size unsized_zip = None
   \<and> \<not> allFileSizesKnown (p_files unsized_zip)"
proof -
  have d: "zip_size example_zip \<noteq> None" by (simp add: example_zip_def)
  have u: "zip_size unsized_zip = None" by (simp add: unsized_zip_def new_instance_def)
  have r: "reachable stored_encoder one_file_fs unsized_zip"
    using constructor_unsized by (rule reach_new)
  from size_defined_iff_planned [OF reachable_example] size_defined_iff_planned [OF r]
    d u r reachable_example
  show ?thesis by simp
qed

section \<open>Claims about the order of processing\<close>

lemma order_inv_new:
  assumes "constructor enc fls = Inr z"
  shows "order_inv z"
proof -
  from assms obtain vs fs k where c: "conform_files vs True = Inr (fs, k)"
    and z: "z = (new_instance fs)\<lparr>zip_size := zip_size z\<rparr>"
  proof (cases rule: constructor_cases)
    case (1 vs fs)
    then have "z = (new_instance fs)\<lparr>zip_size := zip_size z\<rparr>" by simp
    with 1(2) that show ?thesis by simp
  next
    case (2 vs fs)
    from calculateZipSize_ok [OF 2(3)] have "z = (new_instance fs)\<lparr>zip_size := zip_size z\<rparr>" by simp
    with 2(2) that show ?thesis by simp
  qed
  have f: "p_files z = fs" by (subst z) (simp add: new_instance_def)
  from conform_files_fresh [OF c] have "list_all not_opened fs"
    by (simp add: list_all_iff not_opened_def)
  then have "list_all not_opened (drop 1 fs)"
    by (auto simp: list_all_iff dest: in_set_dropD)
  with f constructor_fresh [OF assms] show ?thesis by (simp add: order_inv_def)
qed

lemma order_inv_start:
  assumes "order_inv z" "p_nextFileIndex z = 0" "p_currentFileIndex z = None"
  shows "order_inv (snd (startNextFile enc z))"
proof -
  let ?z' = "snd (startNextFile enc z)"
  from assms have e: "p_zip z = []" by (simp add: order_inv_def)
  have zp: "p_zip ?z' = (if p_files z = [] then [] else [entry_key (hd (p_files z))])"
    using assms(2) e by (cases "p_files z") (simp_all add: startNextFile_zip)
  have "prefix (p_zip ?z') (map entry_key (p_files z))"
    unfolding zp by (cases "p_files z") simp_all
  then have a: "prefix (p_zip ?z') (map entry_key (p_files ?z'))"
    by (simp add: startNextFile_keys)
  have b: "length (p_zip ?z') \<le> 1" unfolding zp by simp
  have c: "p_currentFileIndex ?z' = Some 0" using assms(2) by (simp add: startNextFile_fields)
  have "drop 1 (p_files ?z') = drop 1 (p_files z)"
    using assms(2) by (cases "p_files z") (simp_all add: startNextFile_files)
  with assms(1) have d: "list_all not_opened (drop 1 (p_files ?z'))"
    by (simp add: order_inv_def)
  from a b c d show ?thesis by (simp add: order_inv_def)
qed

lemma reachable_order_inv:
  assumes "reachable enc stat z"
  shows "order_inv z \<and> files z = None \<and> p_nextFileIndex z = 0"
  using assms
proof (rule reachable_invariant)
  fix fls z assume "constructor enc fls = Inr z"
  then show "order_inv z" by (rule order_inv_new)
next
  fix z offset len assume "order_inv z"
  then show "order_inv (add_output z offset len)"
    by (auto simp: order_inv_def add_output_fields split: option.splits)
next
  fix z assume "order_inv z" "p_nextFileIndex z = 0" "p_currentFileIndex z = None"
  then show "order_inv (snd (startNextFile enc z))" by (rule order_inv_start)
qed

text \<open>
  C4. In every reachable instance, however many requests have been made: the entries
  that \<open>_startNextFile\<close> has handed to the encoder of the instance are an initial part
  of the catalog, in catalog order; there is at most one of them; the entry being
  processed, if any, is the first of the catalog; and no later entry has been opened.
  So no entry is started before its predecessor is done and no two entries are
  processed at once. (\<open>_nextFileIndex\<close> stays \<open>0\<close>: the code never goes on to a second
  entry.)
\<close>

theorem entries_started_in_catalog_order:
  assumes "reachable enc stat z"
  shows "prefix (p_zip z) (map entry_key (p_files z))
         \<and> length (p_zip z) \<le> 1
         \<and> p_nextFileIndex z = 0
         \<and> (p_currentFileIndex z = None \<and> p_zip z = [] \<or> p_currentFileIndex z = Some 0)
         \<and> (\<forall>i. 0 < i \<and> i < length (p_files z) \<longrightarrow>
               crc32Watcher (p_files z ! i) = None \<and> compressedSizeCounter (p_files z ! i) = None)"
proof -
  from reachable_order_inv [OF assms] have o: "order_inv z" and n: "p_nextFileIndex z = 0"
    by simp_all
  have "\<forall>i. 0 < i \<and> i < length (p_files z) \<longrightarrow> not_opened (p_files z ! i)"
  proof (intro allI impI)
    fix i assume i: "0 < i \<and> i < length (p_files z)"
    then have "p_files z ! i = drop 1 (p_files z) ! (i - 1)" by simp
    moreover from i have "i - 1 < length (drop 1 (p_files z))" by auto
    ultimately show "not_opened (p_files z ! i)"
      using o by (simp add: order_inv_def list_all_length del: drop_Suc_Cons One_nat_def)
  qed
  with o n show ?thesis
    by (auto simp: order_inv_def not_opened_def split: option.splits)
qed

lemma constructor_two:
  "constructor stored_encoder (JArr [descriptor ''a'' ''a.txt'' 5, descriptor ''b'' ''b.txt'' 3]) = Inr two_zip"
  by (simp add: constructor_def conform_descriptor calculateZipSize_def new_instance_def
      stored_encoder_def entry_key_def calculateFinalSize_def two_zip_def two_files_def)

lemma two_zip_first:
  "getStream stored_encoder two_zip (JNum (Integer 0)) (JNum (Integer 1)) =
     (Inr (PassThrough []),
      two_zip\<lparr>p_chunks := [\<lparr>buff = replicate 35 0, chunk_file = None, chunk_offset = 0\<rparr>],
              p_zip := [(''a.txt'', Some 5)],
              p_outputs := [new_output (JNum (Integer 0)) (JNum (Integer 1))],
              p_currentFileIndex := Some 0,
              p_currentSize := Fin 40,
              p_files := [\<lparr>path = ''a'', filename = ''a.txt'', file_size = Some 5,
                            crc32Watcher = Some 0, compressedSizeCounter = Some 3\<rparr>,
                          \<lparr>path = ''b'', filename = ''b.txt'', file_size = Some 3,
                            crc32Watcher = None, compressedSizeCounter = None\<rparr>]\<rparr>)"
  by (simp add: getStream_def startNextFile_def Let_def two_zip_def two_files_def new_instance_def
      isPositiveIntegerOrZero_def isPositiveInteger_def stored_encoder_def entry_key_def
      round_dbl_exact chunk_of_def new_output_def)

lemma two_zip_later_eq:
  "two_zip_later =
      two_zip\<lparr>p_chunks := [\<lparr>buff = replicate 35 0, chunk_file = None, chunk_offset = 0\<rparr>],
              p_zip := [(''a.txt'', Some 5)],
              p_outputs := [new_output (JNum (Integer 0)) (JNum (Integer 1)),
                            new_output (JNum (Integer 91)) (JNum (Integer 1))],
              p_currentFileIndex := Some 0,
              p_currentSize := Fin 40,
              p_files := [\<lparr>path = ''a'', filename = ''a.txt'', file_size = Some 5,
                            crc32Watcher = Some 0, compressedSizeCounter = Some 3\<rparr>,
                          \<lparr>path = ''b'', filename = ''b.txt'', file_size = Some 3,
                            crc32Watcher = None, compressedSizeCounter = None\<rparr>]\<rparr>"
  unfolding two_zip_later_def two_zip_first
  by (simp add: getStream_def Let_def two_zip_def two_files_def new_instance_def
      isPositiveIntegerOrZero_def isPositiveInteger_def new_output_def round_dbl_exact)

lemma reachable_two_zip_later: "reachable stored_encoder one_file_fs two_zip_later"
  unfolding two_zip_later_def
  by (intro reach_getStream reach_new [OF constructor_two])

theorem entries_started_in_catalog_order_witness:
  "reachable stored_encoder one_file_fs two_zip_later
   \<and> p_zip two_zip_later = [(''a.txt'', Some 5)]
   \<and> prefix (p_zip two_zip_later) (map entry_key (p_files two_zip_later))
   \<and> p_currentFileIndex two_zip_later = Some 0
   \<and> crc32Watcher (p_files two_zip_later ! 1) = None"
proof -
  have z: "p_zip two_zip_later = [(''a.txt'', Some 5)]" "length (p_files two_zip_later) = 2"
    by (simp_all add: two_zip_later_eq)
  from entries_started_in_catalog_order [OF reachable_two_zip_later] z reachable_two_zip_later
  show ?thesis by simp
qed

section \<open>Claims about delivery\<close>

lemma reachable_silent_outputs:
  assumes "reachable enc stat z"
  shows "silent_outputs z"
proof -
  have "silent_outputs z \<and> files z = None \<and> p_nextFileIndex z = 0"
    using assms
  proof (rule reachable_invariant)
    fix fls z assume "constructor enc fls = Inr z"
    then show "silent_outputs z" by (simp add: silent_outputs_def constructor_fresh)
  next
    fix z offset len assume "silent_outputs z"
    then show "silent_outputs (add_output z offset len)"
      by (simp add: silent_outputs_def add_output_fields new_output_def)
  next
    fix z assume "silent_outputs z"
    then show "silent_outputs (snd (startNextFile enc z))"
      by (simp add: silent_outputs_def startNextFile_fields)
  qed
  then show ?thesis by simp
qed

lemma getStream_returns_empty_stream:
  "getStream enc z offset len = (Inr s, z') \<Longrightarrow> written s = []"
  by (auto simp: getStream_def Let_def split: if_splits prod.splits option.splits)

text \<open>
  C1. The claim is that the stream \<open>getStream(offset, length)\<close> returns receives the
  \<open>length\<close> bytes of the archive from \<open>offset\<close> on. The code does not do that:
  \<open>_startOutput\<close> is empty and no statement writes to the stream of a request, so in
  every reachable instance every request has received no byte
  (\<open>reachable_silent_outputs\<close>). The theorem runs the code on the catalog
  \<open>[{path: 'a', filename: 'a.txt', size: 5}]\<close>: \<open>getStream(0, 1)\<close> returns a stream, the
  request asks for one byte, and the stream holds none.
\<close>

theorem getStream_delivers_no_bytes:
  "constructor stored_encoder (JArr [descriptor ''a'' ''a.txt'' 5]) = Inr example_zip
   \<and> getStream stored_encoder example_zip (JNum (Integer 0)) (JNum (Integer 1))
       = (Inr (PassThrough []), started_zip)
   \<and> map out_length (p_outputs started_zip) = [1]
   \<and> map (\<lambda>out. written (stream out)) (p_outputs started_zip) = [[]]"
proof -
  have "getStream stored_encoder example_zip (JNum (Integer 0)) (JNum (Integer 1))
       = (Inr (PassThrough []), started_zip)"
    by (simp add: getStream_def startNextFile_def Let_def example_zip_def new_instance_def
      isPositiveIntegerOrZero_def isPositiveInteger_def stored_encoder_def entry_key_def
      round_dbl_exact chunk_of_def started_zip_def)
  moreover have "map out_length (p_outputs started_zip) = [1]
     \<and> map (\<lambda>out. written (stream out)) (p_outputs started_zip) = [[]]"
    by (simp add: started_zip_def)
  ultimately show ?thesis using constructor_example by simp
qed

section \<open>Claims about \<open>init\<close>\<close>

lemma reachable_files_undefined:
  assumes "reachable enc stat z"
  shows "files z = None"
proof -
  have "True \<and> files z = None \<and> p_nextFileIndex z = 0"
    using assms by (rule reachable_invariant) simp_all
  then show ?thesis by simp
qed

lemma init_without_size:
  assumes "reachable enc stat z" "\<not> truthy_size (zip_size z)"
  shows "init enc stat z = (Some (TypeError ''this.files is not iterable''), z)"
  using reachable_files_undefined [OF assms(1)] assms(2) by (simp add: init_def)

text \<open>
  C3. The claim is that \<open>init\<close> stats every entry without a size, records the sizes and
  completes the size calculation. The code does not do that: the loop of \<open>init\<close> reads
  \<open>this.files\<close>, while the constructor stored the catalog in \<open>this._files\<close>; so for every
  reachable instance without a size \<open>init\<close> throws before the first \<open>stat\<close> and changes
  nothing (\<open>init_without_size\<close>). The theorem runs the code on the catalog
  \<open>[{path: 'a', filename: 'a.txt'}]\<close> with a file of five bytes at \<open>a\<close>: \<open>init\<close> fails, the
  size of the entry stays unknown and the size of the archive stays \<open>null\<close>.
\<close>

theorem init_throws_before_stat:
  "constructor stored_encoder (JArr [descriptor_no_size ''a'' ''a.txt'']) = Inr unsized_zip
   \<and> one_file_fs ''a'' = Some 5
   \<and> init stored_encoder one_file_fs unsized_zip
       = (Some (TypeError ''this.files is not iterable''), unsized_zip)
   \<and> map file_size (p_files unsized_zip) = [None]
   \<and> zip_size unsized_zip = None"
  using constructor_unsized
  by (simp add: init_def unsized_zip_def new_instance_def one_file_fs_def)

lemma stat_all_idem:
  "stat_all stat fs = (e, fs') \<Longrightarrow> stat_all stat fs' = (e, fs')"
proof (induction fs arbitrary: e fs')
  case Nil
  then show ?case by simp
next
  case (Cons f fs)
  obtain e0 fs0 where r: "stat_all stat fs = (e0, fs0)" by (cases "stat_all stat fs")
  note ih = Cons.IH [OF r]
  show ?case
  proof (cases "file_size f")
    case (Some n)
    with Cons.prems r have "e = e0" "fs' = f # fs0" by simp_all
    with Some ih show ?thesis by simp
  next
    case None
    show ?thesis
    proof (cases "stat (path f)")
      case N: None
      with None Cons.prems have "e = Some (StatError (path f))" "fs' = f # fs" by simp_all
      with None N show ?thesis by simp
    next
      case (Some n)
      with None Cons.prems r have "e = e0" "fs' = f\<lparr>file_size := Some n\<rparr> # fs0" by simp_all
      with ih show ?thesis by simp
    qed
  qed
qed

lemma calculateZipSize_idem:
  assumes "\<not> truthy_size (zip_size z)" "calculateZipSize enc z = (Some e, z')"
  shows "\<not> truthy_size (zip_size z') \<and> files z' = files z \<and> calculateZipSize enc z' = (Some e, z')"
  using assms
  by (auto simp: calculateZipSize_def split: sum.splits end_effect.splits if_splits)

lemma calculateZipSize_files:
  "files (snd (calculateZipSize enc z)) = files z"
  by (auto simp: calculateZipSize_def split: sum.splits end_effect.splits)

lemma init_truthy: "truthy_size (zip_size z) \<Longrightarrow> init enc stat z = (None, z)"
  by (simp add: init_def)

lemma init_idem: "init enc stat (snd (init enc stat z)) = init enc stat z"
proof (cases "truthy_size (zip_size z)")
  case True
  then show ?thesis by (simp add: init_truthy)
next
  case False
  show ?thesis
  proof (cases "files z")
    case None
    with False show ?thesis by (simp add: init_def)
  next
    case (Some fs)
    obtain e fs' where s: "stat_all stat fs = (e, fs')" by (cases "stat_all stat fs")
    note s' = stat_all_idem [OF s]
    let ?z1 = "z\<lparr>files := Some fs'\<rparr>"
    have z1: "\<not> truthy_size (zip_size ?z1)" "files ?z1 = Some fs'" "?z1\<lparr>files := Some fs'\<rparr> = ?z1"
      using False by simp_all
    show ?thesis
    proof (cases e)
      case (Some err)
      with False \<open>files z = Some fs\<close> s have i: "init enc stat z = (Some err, ?z1)"
        by (simp add: init_def)
      from z1 s' Some have "init enc stat ?z1 = (Some err, ?z1)" by (simp add: init_def)
      with i show ?thesis by simp
    next
      case None
      with False \<open>files z = Some fs\<close> s have i: "init enc stat z = calculateZipSize enc ?z1"
        by (simp add: init_def)
      obtain r z2 where c: "calculateZipSize enc ?z1 = (r, z2)" by (cases "calculateZipSize enc ?z1")
      show ?thesis
      proof (cases r)
        case N: None
        with c calculateZipSize_ok [of enc ?z1 z2] have "truthy_size (zip_size z2)" by simp
        with i c N show ?thesis by (simp add: init_truthy)
      next
        case (Some err)
        with c calculateZipSize_idem [OF z1(1), of enc err z2]
        have t: "\<not> truthy_size (zip_size z2)" and f: "files z2 = Some fs'"
          and c2: "calculateZipSize enc z2 = (Some err, z2)" by simp_all
        from f have u: "z2\<lparr>files := Some fs'\<rparr> = z2" by simp
        from t f s' None have "init enc stat z2 = calculateZipSize enc (z2\<lparr>files := Some fs'\<rparr>)"
          by (simp add: init_def)
        with c2 have "init enc stat z2 = (Some err, z2)" by (simp only: u)
        with i c Some show ?thesis by simp
      qed
    qed
  qed
qed

text \<open>
  C8. \<open>init\<close> is idempotent: a second call in succession has the same outcome as the
  first and leaves the instance as the first left it, so the sizes of the entries and
  the size of the archive are the same after two calls as after one. When the size is
  already computed, a call returns at once and changes nothing.
\<close>

theorem init_idempotent:
  "init enc stat (snd (init enc stat z)) = init enc stat z
   \<and> map file_size (p_files (snd (init enc stat (snd (init enc stat z)))))
       = map file_size (p_files (snd (init enc stat z)))
   \<and> zip_size (snd (init enc stat (snd (init enc stat z)))) = zip_size (snd (init enc stat z))
   \<and> (truthy_size (zip_size z) \<longrightarrow> init enc stat z = (None, z))"
  by (simp add: init_idem init_truthy)

theorem init_idempotent_witness:
  "truthy_size (zip_size example_zip)
   \<and> init stored_encoder one_file_fs example_zip = (None, example_zip)
   \<and> init stored_encoder one_file_fs (snd (init stored_encoder one_file_fs unsized_zip))
       = init stored_encoder one_file_fs unsized_zip"
proof -
  have t: "truthy_size (zip_size example_zip)" by (simp add: example_zip_def)
  from init_idempotent [of stored_encoder one_file_fs example_zip]
    init_idempotent [of stored_encoder one_file_fs unsized_zip] t
  show ?thesis by simp
qed

section \<open>Claims about validation\<close>

lemma conform_file_valid:
  "valid_descriptor v \<Longrightarrow> \<exists>f k. conform_file v = Inr (f, k)"
  by (auto simp: valid_descriptor_def conform_file_def split: jsval.splits)

lemma conform_file_invalid:
  "\<not> valid_descriptor v \<Longrightarrow> \<exists>m. conform_file v = Inl (Invariant m)"
  by (auto simp: valid_descriptor_def conform_file_def split: jsval.splits)

lemma conform_files_valid:
  "list_all valid_descriptor vs \<Longrightarrow> \<exists>fs k. conform_files vs known = Inr (fs, k)"
proof (induction vs arbitrary: known)
  case Nil
  then show ?case by simp
next
  case (Cons v vs)
  then obtain f k where f: "conform_file v = Inr (f, k)"
    using conform_file_valid [of v] by auto
  from Cons obtain fs k' where "conform_files vs (known \<and> k) = Inr (fs, k')"
    by fastforce
  with f show ?case by simp
qed

lemma conform_files_invalid:
  "\<not> list_all valid_descriptor vs \<Longrightarrow> \<exists>m. conform_files vs known = Inl (Invariant m)"
proof (induction vs arbitrary: known)
  case Nil
  then show ?case by simp
next
  case (Cons v vs)
  show ?case
  proof (cases "valid_descriptor v")
    case False
    from conform_file_invalid [OF this] show ?thesis by auto
  next
    case True
    then obtain f k where f: "conform_file v = Inr (f, k)"
      using conform_file_valid [of v] by auto
    from True Cons.prems have "\<not> list_all valid_descriptor vs" by simp
    from Cons.IH [OF this] obtain m where "conform_files vs (known \<and> k) = Inl (Invariant m)"
      by blast
    with f show ?thesis by simp
  qed
qed

text \<open>
  C6, as stated, asks that a descriptor whose path or archive name is the empty string
  be rejected. The code checks \<open>isString\<close> only: the constructor accepts the empty
  path (here with a size, so that the archive is planned too) and the empty name.
\<close>

theorem empty_path_accepted:
  "constructor stored_encoder (JArr [descriptor [] ''a.txt'' 5])
     = Inr ((new_instance [\<lparr>path = [], filename = ''a.txt'', file_size = Some 5,
                             crc32Watcher = None, compressedSizeCounter = None\<rparr>])\<lparr>zip_size := Some 129\<rparr>)
   \<and> constructor stored_encoder (JArr [descriptor_no_size ''a'' []])
     = Inr (new_instance [\<lparr>path = ''a'', filename = [], file_size = None,
                             crc32Watcher = None, compressedSizeCounter = None\<rparr>])"
  by (simp add: constructor_def conform_descriptor conform_descriptor_no_size calculateZipSize_def
      new_instance_def stored_encoder_def entry_key_def calculateFinalSize_def)

text \<open>
  C6, amended. The constructor rejects, with an assertion error that does not depend on
  the encoder (so before any planning), every list with a descriptor that is not an
  object, or whose path or archive name is not a string, or whose size is neither
  absent (\<open>null\<close>, \<open>undefined\<close>) nor a non-negative integer. Every other list passes
  validation, which yields one catalog entry per descriptor and has no effect besides.
\<close>

theorem constructor_validates_descriptors:
  "(list_all valid_descriptor vs \<longrightarrow>
      (\<exists>fs k. conform_files vs True = Inr (fs, k) \<and> length fs = length vs))
   \<and> (\<not> list_all valid_descriptor vs \<longrightarrow>
      (\<exists>m. \<forall>enc. constructor enc (JArr vs) = Inl (Invariant m)))"
proof (intro conjI impI)
  assume "list_all valid_descriptor vs"
  from conform_files_valid [OF this, of True] obtain fs k
    where c: "conform_files vs True = Inr (fs, k)" by blast
  with conform_files_known [OF c]
  show "\<exists>fs k. conform_files vs True = Inr (fs, k) \<and> length fs = length vs" by simp
next
  assume "\<not> list_all valid_descriptor vs"
  from conform_files_invalid [OF this, of True] obtain m
    where "conform_files vs True = Inl (Invariant m)" by blast
  then have "\<forall>enc. constructor enc (JArr vs) = Inl (Invariant m)"
    by (simp add: constructor_invalid)
  then show "\<exists>m. \<forall>enc. constructor enc (JArr vs) = Inl (Invariant m)" ..
qed

theorem constructor_validates_descriptors_witness:
  "list_all valid_descriptor [descriptor [] ''a.txt'' 5]
   \<and> (\<exists>fs k. conform_files [descriptor [] ''a.txt'' 5] True = Inr (fs, k) \<and> length fs = 1)
   \<and> \<not> list_all valid_descriptor [descriptor ''a'' ''a.txt'' (- 1)]
   \<and> (\<exists>m. \<forall>enc. constructor enc (JArr [descriptor ''a'' ''a.txt'' (- 1)]) = Inl (Invariant m))"
proof -
  have a: "list_all valid_descriptor [descriptor [] ''a.txt'' 5]"
    by (simp add: valid_descriptor_def descriptor_def isPositiveIntegerOrZero_def)
  have b: "\<not> list_all valid_descriptor [descriptor ''a'' ''a.txt'' (- 1)]"
    by (simp add: valid_descriptor_def descriptor_def isPositiveIntegerOrZero_def)
  from constructor_validates_descriptors [of "[descriptor [] ''a.txt'' 5]"]
    constructor_validates_descriptors [of "[descriptor ''a'' ''a.txt'' (- 1)]"] a b
  show ?thesis by simp
qed

section \<open>Claims about zero-byte files\<close>

lemma conform_files_nth:
  "conform_files vs known = Inr (fs, k) \<Longrightarrow> i < length vs \<Longrightarrow>
     conform_file (vs ! i) = Inr (fs ! i, file_size (fs ! i) \<noteq> None)"
proof (induction vs arbitrary: known fs k i)
  case Nil
  then show ?case by simp
next
  case (Cons v vs)
  from Cons.prems(1) obtain f kf fs0 where
    f: "conform_file v = Inr (f, kf)" and
    r: "conform_files vs (known \<and> kf) = Inr (fs0, k)" and
    fs: "fs = f # fs0"
    by (auto split: sum.splits prod.splits)
  show ?case
  proof (cases i)
    case 0
    with f fs conform_file_fresh [OF f] show ?thesis by simp
  next
    case (Suc j)
    with Cons.prems(2) have "j < length vs" by simp
    from Cons.IH [OF r this] Suc fs show ?thesis by simp
  qed
qed

lemma add_all_history:
  "add_all enc h fs = Inr h' \<Longrightarrow> h' = h @ map entry_key fs"
proof (induction fs arbitrary: h)
  case Nil
  then show ?case by simp
next
  case (Cons f fs)
  from Cons.prems have "add_all enc (h @ [entry_key f]) fs = Inr h'"
    by (simp split: if_splits)
  from Cons.IH [OF this] show ?case by simp
qed

lemma constructor_catalog:
  assumes "constructor enc (JArr vs) = Inr z"
  shows "\<exists>k. conform_files vs True = Inr (p_files z, k)"
  using assms
proof (cases rule: constructor_cases)
  case (1 ws fs)
  then have "conform_files vs True = Inr (p_files z, False)" by (simp add: new_instance_def)
  then show ?thesis ..
next
  case (2 ws fs)
  from calculateZipSize_ok [OF 2(3)] have z: "z = (new_instance fs)\<lparr>zip_size := zip_size z\<rparr>"
    by simp
  have "p_files z = fs" by (subst z) (simp add: new_instance_def)
  with 2 have "conform_files vs True = Inr (p_files z, True)" by simp
  then show ?thesis ..
qed

lemma constructor_size_pass:
  assumes "constructor enc fls = Inr z" "allFileSizesKnown (p_files z)"
  shows "add_all enc [] (p_files z) = Inr (map entry_key (p_files z)) \<and> truthy_size (zip_size z)"
  using assms(1)
proof (cases rule: constructor_cases)
  case (1 vs fs)
  from conform_files_known [OF 1(2)] have "\<not> allFileSizesKnown fs" by simp
  with 1(3) assms(2) show ?thesis by (simp add: new_instance_def)
next
  case (2 vs fs)
  from calculateZipSize_ok [OF 2(3)]
  have t: "truthy_size (zip_size z)" and z: "z = (new_instance fs)\<lparr>zip_size := zip_size z\<rparr>"
    by simp_all
  have f: "p_files z = fs" by (subst z) (simp add: new_instance_def)
  from 2(3) obtain h where "add_all enc [] fs = Inr h"
    by (auto simp: calculateZipSize_def new_instance_def split: sum.splits)
  with add_all_history [OF this] f t show ?thesis by simp
qed

text \<open>
  C10. A descriptor with string path and name and the size \<open>0\<close> passes validation and
  becomes a catalog entry whose size is known to be \<open>0\<close>. In every instance constructed
  from a list that contains it, the entry is in the catalog at its position, and when
  all sizes are known the size calculation hands every entry of the catalog, this one
  included and with size \<open>0\<close>, to the encoder, and the archive size is computed.
\<close>

theorem zero_byte_file_accepted:
  assumes "get_prop ps ''path'' = JStr p" "get_prop ps ''filename'' = JStr n"
    "get_prop ps ''size'' = JNum (Integer 0)"
  shows "conform_file (JObj ps) = Inr (zero_file p n, True)
         \<and> (constructor enc (JArr (pre @ JObj ps # post)) = Inr z \<longrightarrow>
              length (p_files z) = length pre + 1 + length post
              \<and> p_files z ! length pre = zero_file p n
              \<and> (allFileSizesKnown (p_files z) \<longrightarrow>
                    add_all enc [] (p_files z) = Inr (map entry_key (p_files z))
                    \<and> map entry_key (p_files z) ! length pre = (n, Some 0)
                    \<and> truthy_size (zip_size z)))"
proof (intro conjI impI)
  show c: "conform_file (JObj ps) = Inr (zero_file p n, True)"
    using assms by (simp add: conform_file_def isPositiveIntegerOrZero_def zero_file_def)
  assume k: "constructor enc (JArr (pre @ JObj ps # post)) = Inr z"
  from constructor_catalog [OF k] obtain kn
    where cf: "conform_files (pre @ JObj ps # post) True = Inr (p_files z, kn)" by blast
  from conform_files_known [OF cf]
  show l: "length (p_files z) = length pre + 1 + length post" by simp
  from conform_files_nth [OF cf, of "length pre"] c
  show e: "p_files z ! length pre = zero_file p n" by simp
  assume a: "allFileSizesKnown (p_files z)"
  from constructor_size_pass [OF k a]
  show "add_all enc [] (p_files z) = Inr (map entry_key (p_files z))"
    and "truthy_size (zip_size z)" by simp_all
  from l e show "map entry_key (p_files z) ! length pre = (n, Some 0)"
    by (simp add: entry_key_def zero_file_def)
qed

lemma constructor_zero:
  "constructor stored_encoder (JArr [descriptor ''a'' ''a.txt'' 5, descriptor ''e'' ''empty.txt'' 0])
     = Inr zero_zip"
  by (simp add: constructor_def conform_descriptor calculateZipSize_def new_instance_def
      stored_encoder_def entry_key_def calculateFinalSize_def zero_zip_def zero_file_def)

theorem zero_byte_file_accepted_witness:
  "constructor stored_encoder (JArr [descriptor ''a'' ''a.txt'' 5, descriptor ''e'' ''empty.txt'' 0])
     = Inr zero_zip
   \<and> allFileSizesKnown (p_files zero_zip)
   \<and> conform_file (descriptor ''e'' ''empty.txt'' 0) = Inr (zero_file ''e'' ''empty.txt'', True)
   \<and> length (p_files zero_zip) = 2
   \<and> p_files zero_zip ! 1 = zero_file ''e'' ''empty.txt''
   \<and> add_all stored_encoder [] (p_files zero_zip) = Inr [(''a.txt'', Some 5), (''empty.txt'', Some 0)]
   \<and> truthy_size (zip_size zero_zip)"
proof -
  let ?ps = "[(''path'', JStr ''e''), (''filename'', JStr ''empty.txt''), (''size'', JNum (Integer 0))]"
  have d: "descriptor ''e'' ''empty.txt'' 0 = JObj ?ps" by (simp add: descriptor_def)
  have c: "constructor stored_encoder (JArr ([descriptor ''a'' ''a.txt'' 5] @ JObj ?ps # [])) = Inr zero_zip"
    using constructor_zero by (simp add: d)
  have a: "allFileSizesKnown (p_files zero_zip)"
    by (simp add: allFileSizesKnown_def zero_zip_def new_instance_def zero_file_def)
  have m: "map entry_key (p_files zero_zip) = [(''a.txt'', Some 5), (''empty.txt'', Some 0)]"
    by (simp add: zero_zip_def new_instance_def zero_file_def entry_key_def)
  from zero_byte_file_accepted [of ?ps "''e''" "''empty.txt''" stored_encoder
      "[descriptor ''a'' ''a.txt'' 5]" "[]" zero_zip] c a m constructor_zero
  show ?thesis by (simp add: d)
qed

end
